theory Spec2Isabelle
  imports Main "HOL-Library.Word" "HOL-Library.Signed_Division"
begin

section \<open>C++ scalars, containers and failures\<close>

text \<open>
  The fixtures are C++ translation units. Their scalar types are modelled with their
  widths: \<open>int\<close> is a 32-bit word read in two's complement by \<open>sint\<close>, and
  \<open>size_t\<close> is a 64-bit word read by \<open>unat\<close>. A \<open>std::vector\<close> is a list; a loop
  counter of type \<open>size_t\<close> that runs over a vector is a \<open>nat\<close> (a vector has fewer
  than \<open>2 ^ 64\<close> elements, so such a counter never wraps before the access at
  \<open>size()\<close>). The type \<open>double\<close> is a type parameter \<open>'d\<close>: the operations on it
  that a function uses are handed over in a record \<open>fp_ops\<close>, so nothing is assumed of
  floating-point arithmetic.

  C++ leaves an out-of-range subscript and a division by zero undefined. The embedding
  is total: each of them is a value \<open>Inl e\<close> of the result. Addition and
  multiplication on \<open>int\<close> wrap around in two's complement, as they do on words; a
  conversion between \<open>int\<close> and \<open>size_t\<close> keeps the value modulo the width of its
  target (\<open>ucast\<close> truncates or zero-extends, \<open>scast\<close> sign-extends).
\<close>

type_synonym cint = "32 word"
type_synonym size_t = "64 word"

datatype error =
    OutOfBounds string int
  | DivByZero
  | DivOverflow

record 'd fp_ops =
  fp_zero :: 'd
  fp_add :: "'d \<Rightarrow> 'd \<Rightarrow> 'd"
  fp_div :: "'d \<Rightarrow> 'd \<Rightarrow> 'd"
  fp_less :: "'d \<Rightarrow> 'd \<Rightarrow> bool"
  fp_of_size :: "nat \<Rightarrow> 'd"
  fp_of_int :: "cint \<Rightarrow> 'd"
  fp_max :: 'd
  fp_lowest :: 'd

definition INT_MAX :: cint where
  "INT_MAX = 2147483647"

definition INT_MIN :: cint where
  "INT_MIN = - 2147483648"

text \<open>\<open>a / b\<close> on \<open>int\<close>: truncation towards zero; a zero divisor and
  \<open>INT_MIN / -1\<close> are undefined.\<close>

definition int_div :: "cint \<Rightarrow> cint \<Rightarrow> error + cint" where
  "int_div a b =
     (if b = 0 then Inl DivByZero
      else if a = INT_MIN \<and> b = - 1 then Inl DivOverflow
      else Inr (word_of_int (sint a sdiv sint b)))"

text \<open>\<open>v[i]\<close> on a \<open>std::vector\<close>, the subscript a \<open>size_t\<close>.\<close>

definition vec_at :: "string \<Rightarrow> 'a list \<Rightarrow> size_t \<Rightarrow> error + 'a" where
  "vec_at nm xs i =
     (if unat i < length xs then Inr (xs ! unat i) else Inl (OutOfBounds nm (uint i)))"


section \<open>validation/test_cases/verilator_style_bugs.cpp\<close>

subsection \<open>class VNumber\<close>

record VNumber =
  m_value :: "32 word list"
  m_width :: cint




text \<open>\<open>return bit >= 0 || bit < m_width;\<close>\<close>

definition VNumber_isValidBitRange :: "VNumber \<Rightarrow> cint \<Rightarrow> bool" where
  "VNumber_isValidBitRange s b = (0 \<le> sint b \<or> sint b < sint (m_width s))"

subsection \<open>class VOptions\<close>

record VOptions =
  m_options :: "string \<rightharpoonup> string"
  m_accessCount :: cint

text \<open>\<open>getOption\<close> returns the string and the object as the call leaves it.\<close>

definition VOptions_getOption :: "VOptions \<Rightarrow> string \<Rightarrow> string \<times> VOptions" where
  "VOptions_getOption s key =
     (let s' = s\<lparr>m_accessCount := m_accessCount s + 1\<rparr>
      in case m_options s' key of
           Some v \<Rightarrow> (v, s')
         | None \<Rightarrow> ('''', s'))"

definition VOptions_setOption :: "VOptions \<Rightarrow> string \<Rightarrow> string \<Rightarrow> VOptions" where
  "VOptions_setOption s key v = s\<lparr>m_options := (m_options s)(key \<mapsto> v)\<rparr>"

subsection \<open>class VStatistics\<close>

record 'd VStatistics =
  m_samples :: "'d list"

definition VStatistics_init :: "'d VStatistics" where
  "VStatistics_init = \<lparr>m_samples = []\<rparr>"

definition VStatistics_addSample :: "'d VStatistics \<Rightarrow> 'd \<Rightarrow> 'd VStatistics" where
  "VStatistics_addSample s v = s\<lparr>m_samples := m_samples s @ [v]\<rparr>"

text \<open>The range-for loop adds the samples from the left, starting at \<open>0.0\<close>; the
  quotient \<open>sum / m_samples.size()\<close> has the size as its divisor.\<close>

definition VStatistics_getAverage :: "'d fp_ops \<Rightarrow> 'd VStatistics \<Rightarrow> error + 'd" where
  "VStatistics_getAverage ops s =
     (let sum = foldl (fp_add ops) (fp_zero ops) (m_samples s)
      in if length (m_samples s) = 0 then Inl DivByZero
         else Inr (fp_div ops sum (fp_of_size ops (length (m_samples s)))))"

text \<open>\<open>return n / total * 100;\<close>\<close>

definition VStatistics_getPercentile :: "cint \<Rightarrow> cint \<Rightarrow> error + cint" where
  "VStatistics_getPercentile n tot =
     (case int_div n tot of Inl e \<Rightarrow> Inl e | Inr q \<Rightarrow> Inr (q * 100))"

subsection \<open>class VValidator\<close>

text \<open>\<open>return value >= min || value <= max;\<close>\<close>

definition VValidator_isValidRange :: "cint \<Rightarrow> cint \<Rightarrow> cint \<Rightarrow> bool" where
  "VValidator_isValidRange v lo hi = (sint lo \<le> sint v \<or> sint v \<le> sint hi)"

section \<open>docs/research/validation/test_cases/verilator_style_bugs_clean.cpp\<close>

text \<open>The classes of this file declare the members of their namesakes above, so the
  records are shared; each member function is translated from this file's own text.\<close>

subsection \<open>class VNumber\<close>

text \<open>\<open>for (size_t i = 0; i <= m_value.size(); i++) m_value[i] = 0;\<close>\<close>

function clean_VNumber_clearAllBits_loop :: "nat \<Rightarrow> 32 word list \<Rightarrow> error + 32 word list" where
  "clean_VNumber_clearAllBits_loop i v =
     (if i \<le> length v
      then (if i < length v
            then clean_VNumber_clearAllBits_loop (Suc i) (v[i := 0])
            else Inl (OutOfBounds ''m_value'' (int i)))
      else Inr v)"
  by pat_completeness auto
termination
  by (relation "measure (\<lambda>(i, v). Suc (length v) - i)") auto

declare clean_VNumber_clearAllBits_loop.simps [simp del]

definition clean_VNumber_clearAllBits :: "VNumber \<Rightarrow> error + VNumber" where
  "clean_VNumber_clearAllBits s =
     (case clean_VNumber_clearAllBits_loop 0 (m_value s) of
        Inl e \<Rightarrow> Inl e
      | Inr v \<Rightarrow> Inr (s\<lparr>m_value := v\<rparr>))"

subsection \<open>class VStatistics\<close>

definition clean_VStatistics_init :: "'d VStatistics" where
  "clean_VStatistics_init = \<lparr>m_samples = []\<rparr>"

definition clean_VStatistics_addSample :: "'d VStatistics \<Rightarrow> 'd \<Rightarrow> 'd VStatistics" where
  "clean_VStatistics_addSample s v = s\<lparr>m_samples := m_samples s @ [v]\<rparr>"

definition clean_VStatistics_getAverage :: "'d fp_ops \<Rightarrow> 'd VStatistics \<Rightarrow> error + 'd" where
  "clean_VStatistics_getAverage ops s =
     (let sum = foldl (fp_add ops) (fp_zero ops) (m_samples s)
      in if length (m_samples s) = 0 then Inl DivByZero
         else Inr (fp_div ops sum (fp_of_size ops (length (m_samples s)))))"

subsection \<open>class VValidator\<close>

text \<open>\<open>return value >= min || value <= max;\<close>\<close>

definition clean_VValidator_isValidRange :: "cint \<Rightarrow> cint \<Rightarrow> cint \<Rightarrow> bool" where
  "clean_VValidator_isValidRange v lo hi = (sint lo \<le> sint v \<or> sint v \<le> sint hi)"

section \<open>validation/test_cases/pr_simulation.cpp\<close>

subsection \<open>class DelayCalculator\<close>

record 'd DelayCalculator =
  m_delays :: "'d list"
  m_signalMap :: "string \<rightharpoonup> cint"
  m_totalDelay :: 'd

definition DelayCalculator_init :: "'d fp_ops \<Rightarrow> 'd DelayCalculator" where
  "DelayCalculator_init ops =
     \<lparr>m_delays = [], m_signalMap = Map.empty, m_totalDelay = fp_zero ops\<rparr>"

text \<open>\<open>m_signalMap[signal] = m_delays.size() - 1\<close> stores a \<open>size_t\<close> in an
  \<open>int\<close>.\<close>

definition DelayCalculator_addDelay ::
  "'d fp_ops \<Rightarrow> 'd DelayCalculator \<Rightarrow> string \<Rightarrow> 'd \<Rightarrow> 'd DelayCalculator" where
  "DelayCalculator_addDelay ops s signal delay =
     (let ds = m_delays s @ [delay]
      in s\<lparr>m_delays := ds,
           m_signalMap := (m_signalMap s)(signal \<mapsto> ucast (word_of_nat (length ds) - 1 :: size_t)),
           m_totalDelay := fp_add ops (m_totalDelay s) delay\<rparr>)"




subsection \<open>class EdgeDetector\<close>

record EdgeDetector =
  m_lastValues :: "bool list"
  m_currentValues :: "bool list"
  m_edgeCount :: cint

definition EdgeDetector_init :: "size_t \<Rightarrow> EdgeDetector" where
  "EdgeDetector_init numSignals =
     \<lparr>m_lastValues = replicate (unat numSignals) False,
      m_currentValues = replicate (unat numSignals) False,
      m_edgeCount = 0\<rparr>"

definition EdgeDetector_updateSignal :: "EdgeDetector \<Rightarrow> size_t \<Rightarrow> bool \<Rightarrow> EdgeDetector" where
  "EdgeDetector_updateSignal s index v =
     (if unat index < length (m_currentValues s)
      then s\<lparr>m_currentValues := (m_currentValues s)[unat index := v]\<rparr>
      else s)"

text \<open>\<open>hasRisingEdge\<close> returns its answer, or the failed subscript, and the object as
  the call leaves it. \<open>!m_lastValues[index] && m_currentValues[index]\<close> reads
  \<open>m_currentValues\<close> only when the left operand is true.\<close>

definition EdgeDetector_hasRisingEdge ::
  "EdgeDetector \<Rightarrow> size_t \<Rightarrow> (error + bool) \<times> EdgeDetector" where
  "EdgeDetector_hasRisingEdge s index =
     (let s' = s\<lparr>m_edgeCount := m_edgeCount s + 1\<rparr>
      in if length (m_lastValues s') \<le> unat index then (Inr False, s')
         else (case vec_at ''m_lastValues'' (m_lastValues s') index of
                 Inl e \<Rightarrow> (Inl e, s')
               | Inr l \<Rightarrow>
                   if \<not> l then (vec_at ''m_currentValues'' (m_currentValues s') index, s')
                   else (Inr False, s')))"

definition EdgeDetector_tick :: "EdgeDetector \<Rightarrow> EdgeDetector" where
  "EdgeDetector_tick s = s\<lparr>m_lastValues := m_currentValues s\<rparr>"

subsection \<open>class SignalBuffer\<close>

record 'd SignalBuffer =
  m_buffer :: "'d list"
  m_writeIndex :: size_t
  m_capacity :: size_t
  m_wrapped :: bool

text \<open>The constructor: \<open>m_buffer.resize(capacity)\<close> fills the buffer with \<open>0.0\<close>.\<close>

definition SignalBuffer_init :: "'d fp_ops \<Rightarrow> size_t \<Rightarrow> 'd SignalBuffer" where
  "SignalBuffer_init ops capacity =
     \<lparr>m_buffer = replicate (unat capacity) (fp_zero ops),
      m_writeIndex = 0, m_capacity = capacity, m_wrapped = False\<rparr>"

definition SignalBuffer_write :: "'d SignalBuffer \<Rightarrow> 'd \<Rightarrow> error + 'd SignalBuffer" where
  "SignalBuffer_write s v =
     (if unat (m_writeIndex s) < length (m_buffer s)
      then (let s1 = s\<lparr>m_buffer := (m_buffer s)[unat (m_writeIndex s) := v],
                        m_writeIndex := m_writeIndex s + 1\<rparr>
            in Inr (if m_capacity s1 \<le> m_writeIndex s1
                    then s1\<lparr>m_writeIndex := 0, m_wrapped := True\<rparr>
                    else s1))
      else Inl (OutOfBounds ''m_buffer'' (uint (m_writeIndex s))))"

text \<open>The subscript that \<open>read\<close> computes, an \<open>int\<close>:
  \<^verbatim>\<open>int idx = static_cast<int>(m_writeIndex) + offset;\<close>
  \<^verbatim>\<open>if (idx < 0) idx += m_capacity;\<close>
  \<^verbatim>\<open>if (idx >= static_cast<int>(m_capacity)) idx -= m_capacity;\<close>
  In \<open>idx += m_capacity\<close> the \<open>int\<close> is converted to \<open>size_t\<close>, the sum taken there
  and converted back.\<close>

definition SignalBuffer_read_idx :: "'d SignalBuffer \<Rightarrow> cint \<Rightarrow> cint" where
  "SignalBuffer_read_idx s offset =
     (let idx = ucast (m_writeIndex s) + offset;
          idx = (if sint idx < 0 then ucast ((scast idx :: size_t) + m_capacity s) else idx);
          idx = (if sint (ucast (m_capacity s) :: cint) \<le> sint idx
                 then ucast ((scast idx :: size_t) - m_capacity s) else idx)
      in idx)"

text \<open>\<open>return m_buffer[idx];\<close> converts the \<open>int\<close> to the \<open>size_t\<close> of the
  subscript.\<close>

definition SignalBuffer_read :: "'d SignalBuffer \<Rightarrow> cint \<Rightarrow> error + 'd" where
  "SignalBuffer_read s offset =
     vec_at ''m_buffer'' (m_buffer s) (scast (SignalBuffer_read_idx s offset))"

text \<open>\<open>return start >= 0 || end < static_cast<int>(m_capacity);\<close>\<close>

definition SignalBuffer_isValidRange :: "'d SignalBuffer \<Rightarrow> cint \<Rightarrow> cint \<Rightarrow> bool" where
  "SignalBuffer_isValidRange s start end' =
     (0 \<le> sint start \<or> sint end' < sint (ucast (m_capacity s) :: cint))"

subsection \<open>class SignalStats\<close>

record 'd SignalStats =
  m_min :: 'd
  m_max :: 'd
  m_sum :: 'd
  m_count :: cint

text \<open>The default member initialisers: \<open>numeric_limits<double>::max()\<close>,
  \<open>lowest()\<close>, \<open>0.0\<close> and \<open>0\<close>.\<close>

definition SignalStats_init :: "'d fp_ops \<Rightarrow> 'd SignalStats" where
  "SignalStats_init ops =
     \<lparr>m_min = fp_max ops, m_max = fp_lowest ops, m_sum = fp_zero ops, m_count = 0\<rparr>"

definition SignalStats_addSample :: "'d fp_ops \<Rightarrow> 'd SignalStats \<Rightarrow> 'd \<Rightarrow> 'd SignalStats" where
  "SignalStats_addSample ops s v =
     (let s1 = (if fp_less ops v (m_min s) then s\<lparr>m_min := v\<rparr> else s);
          s2 = (if fp_less ops (m_max s1) v then s1\<lparr>m_max := v\<rparr> else s1)
      in s2\<lparr>m_sum := fp_add ops (m_sum s2) v, m_count := m_count s2 + 1\<rparr>)"

text \<open>\<open>return m_sum / m_count;\<close> has the count, converted to \<open>double\<close>, as its
  divisor.\<close>

definition SignalStats_getMean :: "'d fp_ops \<Rightarrow> 'd SignalStats \<Rightarrow> error + 'd" where
  "SignalStats_getMean ops s =
     (if m_count s = 0 then Inl DivByZero
      else Inr (fp_div ops (m_sum s) (fp_of_int ops (m_count s))))"

text \<open>\<open>return part / total * 100;\<close>\<close>

definition SignalStats_getRangePercent :: "cint \<Rightarrow> cint \<Rightarrow> error + cint" where
  "SignalStats_getRangePercent part tot =
     (case int_div part tot of Inl e \<Rightarrow> Inl e | Inr q \<Rightarrow> Inr (q * 100))"

section \<open>docs/research/test-data/synthetic-pr/module_1.cpp\<close>




text \<open>\<open>return static_cast<double>(a) / b;\<close> has \<open>b\<close>, converted to \<open>double\<close>, as
  its divisor.\<close>

definition divide :: "'d fp_ops \<Rightarrow> cint \<Rightarrow> cint \<Rightarrow> error + 'd" where
  "divide ops a b =
     (if b = 0 then Inl DivByZero else Inr (fp_div ops (fp_of_int ops a) (fp_of_int ops b)))"

text \<open>The call in \<open>main\<close>: \<open>std::cout << divide(10, 0) << std::endl;\<close>\<close>

definition module_1_main_divide :: "'d fp_ops \<Rightarrow> error + 'd" where
  "module_1_main_divide ops = divide ops 10 0"

section \<open>docs/research/test-data/sample-pr-001/before.cpp\<close>

record DataProcessor =
  data :: "cint list"
  name :: string

definition DataProcessor_init :: "string \<Rightarrow> DataProcessor" where
  "DataProcessor_init n = \<lparr>data = [], name = n\<rparr>"

definition DataProcessor_addData :: "DataProcessor \<Rightarrow> cint \<Rightarrow> DataProcessor" where
  "DataProcessor_addData p v = p\<lparr>data := data p @ [v]\<rparr>"

function DataProcessor_getSum_loop :: "cint list \<Rightarrow> nat \<Rightarrow> cint \<Rightarrow> cint" where
  "DataProcessor_getSum_loop d i sm =
     (if i < length d then DataProcessor_getSum_loop d (Suc i) (sm + d ! i) else sm)"
  by pat_completeness auto
termination
  by (relation "measure (\<lambda>(d, i, sm). length d - i)") auto

declare DataProcessor_getSum_loop.simps [simp del]

definition DataProcessor_getSum :: "DataProcessor \<Rightarrow> cint" where
  "DataProcessor_getSum p = DataProcessor_getSum_loop (data p) 0 0"

text \<open>\<open>operator<<\<close> on an \<open>int\<close> writes it in decimal, a minus sign before a
  negative value.\<close>

function string_of_nat :: "nat \<Rightarrow> string" where
  "string_of_nat n =
     (if n < 10 then [''0123456789'' ! n]
      else string_of_nat (n div 10) @ [''0123456789'' ! (n mod 10)])"
  by pat_completeness auto
termination
  by (relation "measure id") auto

declare string_of_nat.simps [simp del]

definition string_of_cint :: "cint \<Rightarrow> string" where
  "string_of_cint i =
     (if sint i < 0 then CHR ''-'' # string_of_nat (nat (- sint i))
      else string_of_nat (nat (sint i)))"

text \<open>A \<open>DataManager\<close> owns the processors its vector of pointers points to, each
  allocated by its own \<open>new\<close>; \<open>printResults\<close> writes one line per processor.\<close>

type_synonym DataManager = "DataProcessor list"

definition DataManager_addProcessor :: "DataManager \<Rightarrow> string \<Rightarrow> DataManager" where
  "DataManager_addProcessor m n = m @ [DataProcessor_init n]"

definition DataManager_processData :: "DataManager \<Rightarrow> cint \<Rightarrow> DataManager" where
  "DataManager_processData m v = map (\<lambda>proc. DataProcessor_addData proc v) m"

definition DataManager_printResults :: "DataManager \<Rightarrow> string list" where
  "DataManager_printResults m =
     map (\<lambda>proc. name proc @ '': '' @ string_of_cint (DataProcessor_getSum proc)) m"

function before_main_loop :: "cint \<Rightarrow> DataManager \<Rightarrow> DataManager" where
  "before_main_loop i m =
     (if sint i \<le> 10 then before_main_loop (i + 1) (DataManager_processData m i) else m)"
  by pat_completeness auto
termination
proof (relation "measure (\<lambda>(i, m). nat (11 - sint i))")
  show "wf (measure (\<lambda>(i :: cint, m :: DataManager). nat (11 - sint i)))"
    by simp
next
  fix i :: cint and m :: DataManager
  assume le: "sint i \<le> 10"
  have "- 2147483648 \<le> sint i"
    using sint_ge [of i] by simp
  with le have "sint (i + 1) = sint i + 1"
    by (simp add: sint_word_ariths signed_take_bit_int_eq_self_iff)
  with le show "((i + 1, DataManager_processData m i), i, m) \<in> measure (\<lambda>(i, m). nat (11 - sint i))"
    by simp
qed

declare before_main_loop.simps [simp del]

text \<open>\<open>main\<close>: the manager when the loop \<open>for (int i = 1; i <= 10; i++)\<close> is
  left, and then the lines that \<open>printResults\<close> writes together with the value that
  \<open>main\<close> returns.\<close>

definition before_main_manager :: DataManager where
  "before_main_manager =
     (let manager = [];
          manager = DataManager_addProcessor manager ''Processor1'';
          manager = DataManager_addProcessor manager ''Processor2''
      in before_main_loop 1 manager)"

definition before_main :: "string list \<times> cint" where
  "before_main = (DataManager_printResults before_main_manager, 0)"

section \<open>test-data/sample-pr-001/after.cpp\<close>

text \<open>The class \<open>DataProcessor\<close> of this file has the members of the one in
  \<open>before.cpp\<close> and a pointer \<open>cachedSum\<close>: \<open>None\<close> is \<open>nullptr\<close>, \<open>Some c\<close> a
  pointer to an \<open>int\<close> on the heap that holds \<open>c\<close>.\<close>

record DataProcessor_after = DataProcessor +
  cachedSum :: "cint option"

definition after_DataProcessor_init :: "string \<Rightarrow> DataProcessor_after" where
  "after_DataProcessor_init n = \<lparr>data = [], name = n, cachedSum = None\<rparr>"

definition after_DataProcessor_addData :: "DataProcessor_after \<Rightarrow> cint \<Rightarrow> DataProcessor_after" where
  "after_DataProcessor_addData p v =
     (let p1 = p\<lparr>data := data p @ [v]\<rparr>
      in if cachedSum p1 \<noteq> None then p1\<lparr>cachedSum := None\<rparr> else p1)"

function after_DataProcessor_getSum_loop :: "cint list \<Rightarrow> nat \<Rightarrow> cint \<Rightarrow> cint" where
  "after_DataProcessor_getSum_loop d i c =
     (if i < length d then after_DataProcessor_getSum_loop d (Suc i) (c + d ! i) else c)"
  by pat_completeness auto
termination
  by (relation "measure (\<lambda>(d, i, c). length d - i)") auto

declare after_DataProcessor_getSum_loop.simps [simp del]

definition after_DataProcessor_getSum :: "DataProcessor_after \<Rightarrow> cint \<times> DataProcessor_after" where
  "after_DataProcessor_getSum p =
     (case cachedSum p of
        Some c \<Rightarrow> (c, p)
      | None \<Rightarrow>
          (let c = after_DataProcessor_getSum_loop (data p) 0 0
           in (c, p\<lparr>cachedSum := Some c\<rparr>)))"

section \<open>Call sequences on a DataProcessor\<close>

text \<open>A client of either \<open>DataProcessor\<close> calls \<open>addData\<close> and \<open>getSum\<close> in some
  order. \<open>before_run\<close> and \<open>after_run\<close> collect what the \<open>getSum\<close> calls of such a
  sequence return; \<open>after_state\<close> is the object of \<open>after.cpp\<close> at its end.
  \<open>cache_fresh\<close> says that a cached sum is the sum of the data.\<close>

datatype call = AddData cint | GetSum

fun before_run :: "DataProcessor \<Rightarrow> call list \<Rightarrow> cint list" where
  "before_run p [] = []"
| "before_run p (AddData v # cs) = before_run (DataProcessor_addData p v) cs"
| "before_run p (GetSum # cs) = DataProcessor_getSum p # before_run p cs"

fun after_run :: "DataProcessor_after \<Rightarrow> call list \<Rightarrow> cint list" where
  "after_run p [] = []"
| "after_run p (AddData v # cs) = after_run (after_DataProcessor_addData p v) cs"
| "after_run p (GetSum # cs) =
     (case after_DataProcessor_getSum p of (r, p') \<Rightarrow> r # after_run p' cs)"

definition cache_fresh :: "DataProcessor_after \<Rightarrow> bool" where
  "cache_fresh p =
     (case cachedSum p of None \<Rightarrow> True
      | Some c \<Rightarrow> c = DataProcessor_getSum (DataProcessor.truncate p))"

fun after_state :: "DataProcessor_after \<Rightarrow> call list \<Rightarrow> DataProcessor_after" where
  "after_state p [] = p"
| "after_state p (AddData v # cs) = after_state (after_DataProcessor_addData p v) cs"
| "after_state p (GetSum # cs) = after_state (snd (after_DataProcessor_getSum p)) cs"

section \<open>Auxiliary definitions for the properties\<close>

text \<open>\<open>path_delays_in_range s path\<close>: every signal of \<open>path\<close> that the map of \<open>s\<close>
  knows is mapped to a subscript inside \<open>m_delays\<close>.\<close>

definition path_delays_in_range :: "'d DelayCalculator \<Rightarrow> string list \<Rightarrow> bool" where
  "path_delays_in_range s path =
     list_all (\<lambda>sig. case m_signalMap s sig of
                        None \<Rightarrow> True
                      | Some v \<Rightarrow> unat (scast v :: size_t) < length (m_delays s)) path"

text \<open>An instance of the operations on \<open>double\<close>, for evaluating examples: integers
  stand for the doubles.\<close>

definition int_ops :: "int fp_ops" where
  "int_ops =
     \<lparr>fp_zero = 0, fp_add = (+), fp_div = (div), fp_less = (<), fp_of_size = int,
      fp_of_int = sint, fp_max = 1000000, fp_lowest = - 1000000\<rparr>"


text \<open>The invariant of a \<open>SignalBuffer\<close>: the write index is below the capacity, and
  the buffer has as many elements as the capacity says.\<close>

definition SignalBuffer_inv :: "'d SignalBuffer \<Rightarrow> bool" where
  "SignalBuffer_inv s =
     (m_writeIndex s < m_capacity s \<and> length (m_buffer s) = unat (m_capacity s))"

text \<open>\<open>delays_in_range s\<close>: every subscript in the map of \<open>s\<close> is inside
  \<open>m_delays\<close>.\<close>

definition delays_in_range :: "'d DelayCalculator \<Rightarrow> bool" where
  "delays_in_range s =
     (\<forall>sig v. m_signalMap s sig = Some v \<longrightarrow> unat (scast v :: size_t) < length (m_delays s))"

section \<open>Properties\<close>

subsection \<open>Range checks written with a disjunction\<close>

text \<open>
  Claim C2. The range checks written with \<open>||\<close> accept every input:
  \<open>VValidator::isValidRange(value, min, max)\<close> is true for all \<open>value\<close> whenever
  \<open>min <= max\<close>; \<open>VNumber::isValidBitRange(bit)\<close> is true for every \<open>bit\<close> whenever
  \<open>m_width >= 0\<close>; and \<open>SignalBuffer::isValidRange(start, end)\<close> is true for every
  \<open>start >= 0\<close>, whatever \<open>end\<close> is.
\<close>

theorem C2_or_range_checks_accept_all:
  "(sint lo \<le> sint hi \<longrightarrow> VValidator_isValidRange v lo hi) \<and>
   (0 \<le> sint (m_width n) \<longrightarrow> VNumber_isValidBitRange n k) \<and>
   (0 \<le> sint start \<longrightarrow> SignalBuffer_isValidRange sb start end')"
  by (auto simp: VValidator_isValidRange_def VNumber_isValidBitRange_def
      SignalBuffer_isValidRange_def)

text \<open>At \<open>value = 7\<close> above \<open>max = 3\<close>, at \<open>value = -4\<close> below \<open>min = 0\<close>, at
  \<open>bit = 99\<close> beyond a width of 8 and at \<open>end = 1000\<close> beyond a capacity of 4, the
  checks answer true.\<close>

theorem C2_or_range_checks_accept_all_witness:
  "sint (0 :: cint) \<le> sint (3 :: cint) \<and>
   VValidator_isValidRange 7 0 3 \<and> sint (3 :: cint) < sint (7 :: cint) \<and>
   VValidator_isValidRange (- 4) 0 3 \<and> sint (- 4 :: cint) < sint (0 :: cint) \<and>
   0 \<le> sint (m_width \<lparr>m_value = [0], m_width = 8\<rparr>) \<and>
   VNumber_isValidBitRange \<lparr>m_value = [0], m_width = 8\<rparr> 99 \<and>
   0 \<le> sint (0 :: cint) \<and>
   SignalBuffer_isValidRange
     \<lparr>m_buffer = [(), (), (), ()], m_writeIndex = 0, m_capacity = 4, m_wrapped = False\<rparr>
     0 1000"
  using C2_or_range_checks_accept_all [of 0 3 7 "\<lparr>m_value = [0], m_width = 8\<rparr>" 99 0
      "\<lparr>m_buffer = [(), (), (), ()], m_writeIndex = 0, m_capacity = 4, m_wrapped = False\<rparr>"
      1000]
    C2_or_range_checks_accept_all [of 0 3 "- 4" "\<lparr>m_value = [0], m_width = 8\<rparr>" 99 0
      "\<lparr>m_buffer = [(), (), (), ()], m_writeIndex = 0, m_capacity = 4, m_wrapped = False\<rparr>"
      1000]
  by simp

subsection \<open>Inclusive loop bounds\<close>


text \<open>An \<open>int\<close> counter below \<open>INT_MAX\<close> is incremented without wrapping.\<close>

lemma sint_succ_cint:
  "sint (i :: cint) < 2147483647 \<Longrightarrow> sint (i + 1) = sint i + 1"
  using sint_ge [of i] by (simp add: sint_word_ariths signed_take_bit_int_eq_self_iff)






subsection \<open>Divisions with no guard\<close>

text \<open>
  Claim C3. The averaging operations divide without an empty check, so the division by
  zero is reachable through the public interface: with no sample added,
  \<open>VStatistics::getAverage\<close> divides by \<open>m_samples.size() = 0\<close> and
  \<open>SignalStats::getMean\<close> by \<open>m_count = 0\<close>; \<open>divide(a, b)\<close> divides by \<open>b\<close> with
  no guard, and \<open>main\<close> calls \<open>divide(10, 0)\<close>. Each operation takes its error branch
  exactly when its divisor is zero.
\<close>

theorem C3_division_by_zero_reachable:
  "VStatistics_getAverage ops VStatistics_init = Inl DivByZero \<and>
   (VStatistics_getAverage ops s = Inl DivByZero) = (m_samples s = []) \<and>
   SignalStats_getMean ops (SignalStats_init ops) = Inl DivByZero \<and>
   (SignalStats_getMean ops t = Inl DivByZero) = (m_count t = 0) \<and>
   (divide ops a b = Inl DivByZero) = (b = 0) \<and>
   module_1_main_divide ops = Inl DivByZero"
  by (simp add: VStatistics_getAverage_def VStatistics_init_def SignalStats_getMean_def
      SignalStats_init_def divide_def module_1_main_divide_def Let_def)

subsection \<open>Getters that count their calls\<close>

text \<open>
  Claim C5. The getters with a side effect change one counter and nothing else. A call
  \<open>VOptions::getOption(key)\<close> leaves the object as it was but for \<open>m_accessCount\<close>,
  which is one more, and returns the value mapped to \<open>key\<close>, or the empty string when
  there is none. A call \<open>EdgeDetector::hasRisingEdge(index)\<close> leaves the object as it
  was but for \<open>m_edgeCount\<close>, which is one more, for every \<open>index\<close>, in range or not.
  The counters are \<open>int\<close>s: below \<open>INT_MAX\<close> their value goes up by one.
\<close>

theorem C5_getters_bump_one_counter:
  "snd (VOptions_getOption s key) = s\<lparr>m_accessCount := m_accessCount s + 1\<rparr> \<and>
   m_options (snd (VOptions_getOption s key)) = m_options s \<and>
   fst (VOptions_getOption s key) = (case m_options s key of Some v \<Rightarrow> v | None \<Rightarrow> '''') \<and>
   (sint (m_accessCount s) < sint INT_MAX \<longrightarrow>
      sint (m_accessCount (snd (VOptions_getOption s key))) = sint (m_accessCount s) + 1) \<and>
   snd (EdgeDetector_hasRisingEdge e index) = e\<lparr>m_edgeCount := m_edgeCount e + 1\<rparr> \<and>
   m_lastValues (snd (EdgeDetector_hasRisingEdge e index)) = m_lastValues e \<and>
   m_currentValues (snd (EdgeDetector_hasRisingEdge e index)) = m_currentValues e \<and>
   (sint (m_edgeCount e) < sint INT_MAX \<longrightarrow>
      sint (m_edgeCount (snd (EdgeDetector_hasRisingEdge e index))) = sint (m_edgeCount e) + 1)"
proof -
  have o: "snd (VOptions_getOption s key) = s\<lparr>m_accessCount := m_accessCount s + 1\<rparr>"
    by (simp add: VOptions_getOption_def Let_def split: option.split)
  have r: "fst (VOptions_getOption s key) = (case m_options s key of Some v \<Rightarrow> v | None \<Rightarrow> '''')"
    by (simp add: VOptions_getOption_def Let_def split: option.split)
  have d: "snd (EdgeDetector_hasRisingEdge e index) = e\<lparr>m_edgeCount := m_edgeCount e + 1\<rparr>"
    by (simp add: EdgeDetector_hasRisingEdge_def Let_def split: sum.split)
  have so: "sint (m_accessCount s + 1) = sint (m_accessCount s) + 1"
    if "sint (m_accessCount s) < sint INT_MAX"
    using that by (intro sint_succ_cint) (simp add: INT_MAX_def)
  have sd: "sint (m_edgeCount e + 1) = sint (m_edgeCount e) + 1"
    if "sint (m_edgeCount e) < sint INT_MAX"
    using that by (intro sint_succ_cint) (simp add: INT_MAX_def)
  show ?thesis
    using so sd by (simp add: o r d)
qed

text \<open>At a key that is present, at one that is absent, at an index out of range and at
  one in range.\<close>

theorem C5_getters_bump_one_counter_witness:
  "sint (41 :: cint) < sint INT_MAX \<and>
   VOptions_getOption \<lparr>m_options = [''mode'' \<mapsto> ''fast''], m_accessCount = 41\<rparr> ''mode'' =
     (''fast'', \<lparr>m_options = [''mode'' \<mapsto> ''fast''], m_accessCount = 42\<rparr>) \<and>
   VOptions_getOption \<lparr>m_options = [''mode'' \<mapsto> ''fast''], m_accessCount = 41\<rparr> ''depth'' =
     ('''', \<lparr>m_options = [''mode'' \<mapsto> ''fast''], m_accessCount = 42\<rparr>) \<and>
   sint (m_accessCount (snd (VOptions_getOption
     \<lparr>m_options = [''mode'' \<mapsto> ''fast''], m_accessCount = 41\<rparr> ''mode''))) = 42 \<and>
   sint (3 :: cint) < sint INT_MAX \<and>
   EdgeDetector_hasRisingEdge
     \<lparr>m_lastValues = [False, True], m_currentValues = [True, True], m_edgeCount = 3\<rparr> 7 =
     (Inr False, \<lparr>m_lastValues = [False, True], m_currentValues = [True, True], m_edgeCount = 4\<rparr>) \<and>
   EdgeDetector_hasRisingEdge
     \<lparr>m_lastValues = [False, True], m_currentValues = [True, True], m_edgeCount = 3\<rparr> 0 =
     (Inr True, \<lparr>m_lastValues = [False, True], m_currentValues = [True, True], m_edgeCount = 4\<rparr>) \<and>
   sint (m_edgeCount (snd (EdgeDetector_hasRisingEdge
     \<lparr>m_lastValues = [False, True], m_currentValues = [True, True], m_edgeCount = 3\<rparr> 7))) = 4"
proof -
  have b: "fst (EdgeDetector_hasRisingEdge
     \<lparr>m_lastValues = [False, True], m_currentValues = [True, True], m_edgeCount = 3\<rparr> 7) = Inr False"
    by (simp add: EdgeDetector_hasRisingEdge_def)
  have c: "fst (EdgeDetector_hasRisingEdge
     \<lparr>m_lastValues = [False, True], m_currentValues = [True, True], m_edgeCount = 3\<rparr> 0) = Inr True"
    by (simp add: EdgeDetector_hasRisingEdge_def vec_at_def)
  have h: "sint (41 :: cint) < sint INT_MAX" "sint (3 :: cint) < sint INT_MAX"
    by (simp_all add: INT_MAX_def)
  note t1 = C5_getters_bump_one_counter [of
      "\<lparr>m_options = [''mode'' \<mapsto> ''fast''], m_accessCount = 41\<rparr>" "''mode''"
      "\<lparr>m_lastValues = [False, True], m_currentValues = [True, True], m_edgeCount = 3\<rparr>" 7]
  note t2 = C5_getters_bump_one_counter [of
      "\<lparr>m_options = [''mode'' \<mapsto> ''fast''], m_accessCount = 41\<rparr>" "''depth''"
      "\<lparr>m_lastValues = [False, True], m_currentValues = [True, True], m_edgeCount = 3\<rparr>" 0]
  from b c h t1 t2 show ?thesis
    by (simp add: prod_eq_iff)
qed

subsection \<open>Percentages by integer division\<close>

text \<open>A quotient of a smaller non-negative numerator is zero, and a quotient that is
  not zero has a numerator at least as large in magnitude as the divisor.\<close>

lemma int_div_small:
  "0 \<le> sint n \<Longrightarrow> sint n < sint tot \<Longrightarrow> int_div n tot = Inr 0"
proof -
  assume a: "0 \<le> sint n" "sint n < sint tot"
  then have z: "tot \<noteq> 0" by auto
  have m: "tot \<noteq> - 1" using a by auto
  have "sint n sdiv sint tot = 0"
    using a by (simp add: signed_divide_int_def)
  with z m show ?thesis by (simp add: int_div_def)
qed

lemma int_div_nonzero:
  "int_div n tot = Inr q \<Longrightarrow> q \<noteq> 0 \<Longrightarrow> \<bar>sint tot\<bar> \<le> \<bar>sint n\<bar>"
proof (rule ccontr)
  assume d: "int_div n tot = Inr q" and q: "q \<noteq> 0" and c: "\<not> \<bar>sint tot\<bar> \<le> \<bar>sint n\<bar>"
  from c have "\<bar>sint n\<bar> div \<bar>sint tot\<bar> = 0" by simp
  then have "sint n sdiv sint tot = 0" by (simp add: signed_divide_int_def)
  with d have "q = 0" by (simp add: int_div_def split: if_splits)
  with q show False by simp
qed

text \<open>
  Claim C9 says that for all \<open>n\<close> and \<open>total\<close> with \<open>0 <= n < total\<close>,
  \<open>VStatistics::getPercentile(n, total)\<close> and \<open>SignalStats::getRangePercent(n, total)\<close>
  return 0, and that the result is non-zero only when \<open>n >= total\<close>. The second part
  fails for a negative \<open>n\<close>: \<open>-250 / 100\<close> truncates to \<open>-2\<close>, so both functions
  return \<open>-200\<close> at \<open>n = -250\<close> and \<open>total = 100\<close>, where \<open>n\<close> is below \<open>total\<close>.
\<close>

theorem C9_nonzero_below_total_counterexample:
  "VStatistics_getPercentile (- 250) 100 = Inr (- 200) \<and>
   SignalStats_getRangePercent (- 250) 100 = Inr (- 200) \<and>
   (- 200 :: cint) \<noteq> 0 \<and>
   \<not> sint (100 :: cint) \<le> sint (- 250 :: cint)"
  by (simp add: VStatistics_getPercentile_def SignalStats_getRangePercent_def int_div_def
      INT_MIN_def)

text \<open>
  Claim C9, amended. For all \<open>n\<close> and \<open>total\<close> with \<open>0 <= n < total\<close>,
  \<open>VStatistics::getPercentile(n, total)\<close> and \<open>SignalStats::getRangePercent(n, total)\<close>
  return 0: \<open>n / total\<close> truncates to 0 before the multiplication by 100. For all
  \<open>n\<close> and \<open>total\<close>, the result is non-zero only when the magnitude of \<open>n\<close> is at
  least that of \<open>total\<close>.
\<close>

theorem C9_percent_truncates_to_zero:
  "(0 \<le> sint n \<and> sint n < sint tot \<longrightarrow>
      VStatistics_getPercentile n tot = Inr 0 \<and> SignalStats_getRangePercent n tot = Inr 0) \<and>
   (VStatistics_getPercentile n tot = Inr r \<and> r \<noteq> 0 \<longrightarrow> \<bar>sint tot\<bar> \<le> \<bar>sint n\<bar>) \<and>
   (SignalStats_getRangePercent n tot = Inr r \<and> r \<noteq> 0 \<longrightarrow> \<bar>sint tot\<bar> \<le> \<bar>sint n\<bar>)"
proof -
  have small: "VStatistics_getPercentile n tot = Inr 0 \<and> SignalStats_getRangePercent n tot = Inr 0"
    if "0 \<le> sint n" "sint n < sint tot"
    using int_div_small [OF that]
    by (simp add: VStatistics_getPercentile_def SignalStats_getRangePercent_def)
  have p: "\<bar>sint tot\<bar> \<le> \<bar>sint n\<bar>" if "VStatistics_getPercentile n tot = Inr r" "r \<noteq> 0"
  proof -
    from that obtain q where d: "int_div n tot = Inr q" and r: "r = q * 100"
      by (auto simp: VStatistics_getPercentile_def split: sum.splits)
    from r that have "q \<noteq> 0" by auto
    with d show ?thesis by (rule int_div_nonzero)
  qed
  have g: "\<bar>sint tot\<bar> \<le> \<bar>sint n\<bar>" if "SignalStats_getRangePercent n tot = Inr r" "r \<noteq> 0"
  proof -
    from that obtain q where d: "int_div n tot = Inr q" and r: "r = q * 100"
      by (auto simp: SignalStats_getRangePercent_def split: sum.splits)
    from r that have "q \<noteq> 0" by auto
    with d show ?thesis by (rule int_div_nonzero)
  qed
  from small p g show ?thesis by blast
qed

text \<open>At 50 of 100 the result is 0; at 250 of 100 it is 200 and at -250 of 100 it is
  -200, the magnitude 250 being at least 100 in both.\<close>

theorem C9_percent_truncates_to_zero_witness:
  "0 \<le> sint (50 :: cint) \<and> sint (50 :: cint) < sint (100 :: cint) \<and>
   VStatistics_getPercentile 50 100 = Inr 0 \<and> SignalStats_getRangePercent 50 100 = Inr 0 \<and>
   VStatistics_getPercentile 250 100 = Inr 200 \<and> SignalStats_getRangePercent 250 100 = Inr 200 \<and>
   (200 :: cint) \<noteq> 0 \<and> \<bar>sint (100 :: cint)\<bar> \<le> \<bar>sint (250 :: cint)\<bar> \<and>
   VStatistics_getPercentile (- 250) 100 = Inr (- 200) \<and>
   SignalStats_getRangePercent (- 250) 100 = Inr (- 200) \<and>
   (- 200 :: cint) \<noteq> 0 \<and> \<bar>sint (100 :: cint)\<bar> \<le> \<bar>sint (- 250 :: cint)\<bar>"
proof -
  have p: "VStatistics_getPercentile 250 100 = Inr 200"
    "VStatistics_getPercentile (- 250) 100 = Inr (- 200)"
    by (simp_all add: VStatistics_getPercentile_def int_div_def INT_MIN_def)
  have g: "SignalStats_getRangePercent 250 100 = Inr 200"
    "SignalStats_getRangePercent (- 250) 100 = Inr (- 200)"
    by (simp_all add: SignalStats_getRangePercent_def int_div_def INT_MIN_def)
  from p g C9_percent_truncates_to_zero [of 50 100 0]
    C9_percent_truncates_to_zero [of 250 100 200]
    C9_percent_truncates_to_zero [of "- 250" 100 "- 200"]
  show ?thesis by simp
qed

subsection \<open>The run of before.cpp\<close>

text \<open>The manager after the loop of \<open>main\<close>, the sum of its data and the decimal
  form of that sum.\<close>

lemma before_main_manager_eq:
  "before_main_manager =
     [\<lparr>data = [1, 2, 3, 4, 5, 6, 7, 8, 9, 10], name = ''Processor1''\<rparr>,
      \<lparr>data = [1, 2, 3, 4, 5, 6, 7, 8, 9, 10], name = ''Processor2''\<rparr>]"
  by (simp add: before_main_manager_def DataManager_addProcessor_def DataProcessor_init_def
      DataManager_processData_def DataProcessor_addData_def before_main_loop.simps)

lemma getSum_one_to_ten:
  "DataProcessor_getSum \<lparr>data = [1, 2, 3, 4, 5, 6, 7, 8, 9, 10], name = nm\<rparr> = 55"
  by (simp add: DataProcessor_getSum_def DataProcessor_getSum_loop.simps)

lemma string_of_cint_55: "string_of_cint 55 = ''55''"
  by (simp add: string_of_cint_def string_of_nat.simps)

text \<open>
  Claim C6. In \<open>before.cpp\<close>, \<open>main\<close> adds two processors and calls
  \<open>processData(i)\<close> for \<open>i\<close> from 1 to 10, so the data of each processor are the
  values 1 to 10 and \<open>getSum\<close> returns 55 for both; \<open>main\<close> prints
  \<open>Processor1: 55\<close> and \<open>Processor2: 55\<close> and returns 0.
\<close>

theorem C6_before_main_prints_55:
  "map data before_main_manager =
     [[1, 2, 3, 4, 5, 6, 7, 8, 9, 10], [1, 2, 3, 4, 5, 6, 7, 8, 9, 10]] \<and>
   map DataProcessor_getSum before_main_manager = [55, 55] \<and>
   before_main = ([''Processor1: 55'', ''Processor2: 55''], 0)"
  by (simp add: before_main_def before_main_manager_eq getSum_one_to_ten
      DataManager_printResults_def string_of_cint_55)

subsection \<open>The cache of after.cpp\<close>

text \<open>The two summing loops compute the same value. The cache is fresh in a new
  object, after every \<open>addData\<close> and after a \<open>getSum\<close> on a fresh cache; on a fresh
  cache \<open>getSum\<close> returns what the \<open>getSum\<close> of \<open>before.cpp\<close> returns on the same
  data. \<open>DataProcessor.truncate\<close> forgets \<open>cachedSum\<close>, leaving the members of the
  class in \<open>before.cpp\<close>.\<close>

lemma getSum_loops_agree:
  "after_DataProcessor_getSum_loop d i c = DataProcessor_getSum_loop d i c"
proof (induction d i c rule: DataProcessor_getSum_loop.induct)
  case (1 d i sm)
  show ?case
  proof (cases "i < length d")
    case True
    with "1" show ?thesis
      by (subst after_DataProcessor_getSum_loop.simps, subst DataProcessor_getSum_loop.simps) simp
  next
    case False
    then show ?thesis
      by (subst after_DataProcessor_getSum_loop.simps, subst DataProcessor_getSum_loop.simps) simp
  qed
qed

lemma cache_fresh_init: "cache_fresh (after_DataProcessor_init n)"
  by (simp add: cache_fresh_def after_DataProcessor_init_def)

lemma cache_fresh_addData: "cache_fresh (after_DataProcessor_addData p v)"
  by (simp add: cache_fresh_def after_DataProcessor_addData_def Let_def)

lemma cache_fresh_getSum:
  "cache_fresh p \<Longrightarrow> cache_fresh (snd (after_DataProcessor_getSum p))"
  by (auto simp: cache_fresh_def after_DataProcessor_getSum_def Let_def DataProcessor.truncate_def
      DataProcessor_getSum_def getSum_loops_agree split: option.splits)

lemma getSum_refines:
  "cache_fresh p \<Longrightarrow>
   fst (after_DataProcessor_getSum p) = DataProcessor_getSum (DataProcessor.truncate p)"
  by (auto simp: cache_fresh_def after_DataProcessor_getSum_def Let_def DataProcessor.truncate_def
      DataProcessor_getSum_def getSum_loops_agree split: option.splits)

lemma getSum_keeps_members:
  "DataProcessor.truncate (snd (after_DataProcessor_getSum p)) = DataProcessor.truncate p"
  by (simp add: after_DataProcessor_getSum_def Let_def DataProcessor.truncate_def
      split: option.splits)

lemma addData_refines:
  "DataProcessor.truncate (after_DataProcessor_addData p v) =
   DataProcessor_addData (DataProcessor.truncate p) v"
  by (simp add: after_DataProcessor_addData_def DataProcessor_addData_def Let_def
      DataProcessor.truncate_def)

lemma init_refines:
  "DataProcessor.truncate (after_DataProcessor_init n) = DataProcessor_init n"
  by (simp add: after_DataProcessor_init_def DataProcessor_init_def DataProcessor.truncate_def)

lemma run_refines:
  "cache_fresh p \<Longrightarrow> after_run p cs = before_run (DataProcessor.truncate p) cs"
proof (induction cs arbitrary: p)
  case Nil
  show ?case by simp
next
  case (Cons c cs)
  show ?case
  proof (cases c)
    case (AddData v)
    with Cons.IH [OF cache_fresh_addData [of p v]] show ?thesis
      by (simp add: addData_refines)
  next
    case GetSum
    obtain r p' where rp: "after_DataProcessor_getSum p = (r, p')"
      by (cases "after_DataProcessor_getSum p")
    have f: "cache_fresh p'"
      using cache_fresh_getSum [OF Cons.prems] rp by simp
    have t: "DataProcessor.truncate p' = DataProcessor.truncate p"
      using getSum_keeps_members [of p] rp by simp
    have r: "r = DataProcessor_getSum (DataProcessor.truncate p)"
      using getSum_refines [OF Cons.prems] rp by simp
    from Cons.IH [OF f] GetSum rp t r show ?thesis by simp
  qed
qed

lemma cache_fresh_state: "cache_fresh p \<Longrightarrow> cache_fresh (after_state p cs)"
proof (induction cs arbitrary: p)
  case Nil
  then show ?case by simp
next
  case (Cons c cs)
  then show ?case
    by (cases c) (simp_all add: cache_fresh_addData cache_fresh_getSum)
qed

lemma getSum_twice:
  "fst (after_DataProcessor_getSum (snd (after_DataProcessor_getSum p))) =
   fst (after_DataProcessor_getSum p)"
  by (simp add: after_DataProcessor_getSum_def Let_def split: option.splits)

lemma addData_sequence_refines:
  "cache_fresh p \<Longrightarrow>
   cache_fresh (foldl after_DataProcessor_addData p vs) \<and>
   DataProcessor.truncate (foldl after_DataProcessor_addData p vs) =
     foldl DataProcessor_addData (DataProcessor.truncate p) vs"
proof (induction vs arbitrary: p)
  case Nil
  then show ?case by simp
next
  case (Cons v vs)
  from Cons.IH [OF cache_fresh_addData [of p v]] show ?case
    by (simp add: addData_refines)
qed

text \<open>
  Claim C7. The \<open>DataProcessor\<close> of \<open>after.cpp\<close> returns the sums that the one of
  \<open>before.cpp\<close> returns: after the same sequence of \<open>addData\<close> calls on both,
  \<open>getSum\<close> returns the same \<open>int\<close>; the same holds for every \<open>getSum\<close> of a
  sequence that mixes the two calls, since \<open>addData\<close> resets the cache and a cached
  sum is never stale; and a second \<open>getSum\<close> right after a first returns the same
  value.
\<close>

theorem C7_cached_getSum_refines_getSum:
  "fst (after_DataProcessor_getSum (foldl after_DataProcessor_addData (after_DataProcessor_init n) vs)) =
     DataProcessor_getSum (foldl DataProcessor_addData (DataProcessor_init n) vs) \<and>
   after_run (after_DataProcessor_init n) cs = before_run (DataProcessor_init n) cs \<and>
   cache_fresh (after_state (after_DataProcessor_init n) cs) \<and>
   fst (after_DataProcessor_getSum (snd (after_DataProcessor_getSum p))) =
     fst (after_DataProcessor_getSum p)"
proof -
  have a: "fst (after_DataProcessor_getSum (foldl after_DataProcessor_addData (after_DataProcessor_init n) vs)) =
     DataProcessor_getSum (foldl DataProcessor_addData (DataProcessor_init n) vs)"
    using addData_sequence_refines [OF cache_fresh_init, of n vs]
    by (simp add: getSum_refines init_refines)
  have b: "after_run (after_DataProcessor_init n) cs = before_run (DataProcessor_init n) cs"
    using run_refines [OF cache_fresh_init, of n cs] by (simp add: init_refines)
  have c: "cache_fresh (after_state (after_DataProcessor_init n) cs)"
    by (rule cache_fresh_state [OF cache_fresh_init])
  from a b c getSum_twice [of p] show ?thesis by simp
qed

subsection \<open>The file verilator_style_bugs_clean.cpp\<close>

text \<open>The loop of this file's \<open>clearAllBits\<close> ends in the write to
  \<open>m_value[m_value.size()]\<close> as well, and \<open>addSample\<close> appends to the samples.\<close>

lemma clean_clearAllBits_loop_overruns:
  "i \<le> length v \<Longrightarrow>
   clean_VNumber_clearAllBits_loop i v = Inl (OutOfBounds ''m_value'' (int (length v)))"
proof (induction i v rule: clean_VNumber_clearAllBits_loop.induct)
  case (1 i v)
  show ?case
  proof (cases "i < length v")
    case True
    with "1.IH" show ?thesis
      by (subst clean_VNumber_clearAllBits_loop.simps) simp
  next
    case False
    with "1.prems" have "i = length v" by simp
    then show ?thesis
      by (subst clean_VNumber_clearAllBits_loop.simps) simp
  qed
qed

lemma clean_samples_after_addSample:
  "m_samples (foldl clean_VStatistics_addSample s vs) = m_samples s @ vs"
  by (induction vs arbitrary: s) (simp_all add: clean_VStatistics_addSample_def)

text \<open>
  Claim C4 says that \<open>verilator_style_bugs_clean.cpp\<close> is free of the defects of
  \<open>verilator_style_bugs.cpp\<close>: that its \<open>clearAllBits\<close> stays below
  \<open>m_value.size()\<close>, that its \<open>getAverage\<close> never divides by zero after any sequence
  of \<open>addSample\<close> calls, and that its \<open>isValidRange\<close> is true only inside the range.
  The file has the member functions of its pair, without the comments. On a number of
  two words \<open>clearAllBits\<close> writes to \<open>m_value[2]\<close>; after the empty sequence of
  \<open>addSample\<close> calls \<open>getAverage\<close> divides by zero; and \<open>isValidRange(7, 0, 3)\<close>
  is true.
\<close>

theorem C4_clean_file_counterexample:
  "clean_VNumber_clearAllBits \<lparr>m_value = [7, 9], m_width = 64\<rparr> = Inl (OutOfBounds ''m_value'' 2) \<and>
   clean_VStatistics_getAverage int_ops (foldl clean_VStatistics_addSample clean_VStatistics_init []) =
     Inl DivByZero \<and>
   clean_VValidator_isValidRange 7 0 3 \<and> \<not> (sint (0 :: cint) \<le> sint (7 :: cint) \<and> sint (7 :: cint) \<le> sint (3 :: cint))"
  by (simp add: clean_VNumber_clearAllBits_def clean_VNumber_clearAllBits_loop.simps
      clean_VStatistics_getAverage_def clean_VStatistics_init_def clean_VValidator_isValidRange_def)

text \<open>
  Claim C4, amended. In \<open>verilator_style_bugs_clean.cpp\<close>, \<open>VNumber::clearAllBits\<close>
  ends, in every state, in the access to \<open>m_value[m_value.size()]\<close>;
  \<open>VStatistics::getAverage\<close> divides by zero after the empty sequence of
  \<open>addSample\<close> calls and after no other; and \<open>VValidator::isValidRange(value, min,
  max)\<close> is true whenever \<open>min <= value <= max\<close>, and for every \<open>value\<close> whenever
  \<open>min <= max\<close>.
\<close>

theorem C4_clean_file_keeps_the_defects:
  "clean_VNumber_clearAllBits n = Inl (OutOfBounds ''m_value'' (int (length (m_value n)))) \<and>
   (clean_VStatistics_getAverage ops (foldl clean_VStatistics_addSample clean_VStatistics_init vs) =
      Inl DivByZero) = (vs = []) \<and>
   (\<exists>d. clean_VStatistics_getAverage ops (foldl clean_VStatistics_addSample clean_VStatistics_init vs) =
      Inr d) = (vs \<noteq> []) \<and>
   (sint lo \<le> sint v \<and> sint v \<le> sint hi \<longrightarrow> clean_VValidator_isValidRange v lo hi) \<and>
   (sint lo \<le> sint hi \<longrightarrow> clean_VValidator_isValidRange v lo hi)"
proof -
  have a: "clean_VNumber_clearAllBits n = Inl (OutOfBounds ''m_value'' (int (length (m_value n))))"
    by (simp add: clean_VNumber_clearAllBits_def clean_clearAllBits_loop_overruns)
  have b: "m_samples (foldl clean_VStatistics_addSample clean_VStatistics_init vs) = vs"
    by (simp add: clean_samples_after_addSample clean_VStatistics_init_def)
  have c: "(sint lo \<le> sint v \<and> sint v \<le> sint hi \<longrightarrow> clean_VValidator_isValidRange v lo hi) \<and>
   (sint lo \<le> sint hi \<longrightarrow> clean_VValidator_isValidRange v lo hi)"
    by (auto simp: clean_VValidator_isValidRange_def)
  from a c show ?thesis
    by (simp add: clean_VStatistics_getAverage_def b Let_def)
qed

text \<open>At the samples 4 and 8 the average is taken; the range check accepts 2 inside
  the range from 0 to 3, and 7 outside it.\<close>

theorem C4_clean_file_keeps_the_defects_witness:
  "sint (0 :: cint) \<le> sint (3 :: cint) \<and>
   clean_VValidator_isValidRange 7 0 3 \<and>
   sint (0 :: cint) \<le> sint (2 :: cint) \<and> sint (2 :: cint) \<le> sint (3 :: cint) \<and>
   clean_VValidator_isValidRange 2 0 3 \<and>
   clean_VStatistics_getAverage int_ops
     (foldl clean_VStatistics_addSample clean_VStatistics_init [4, 8]) = Inr 6"
proof -
  have g: "clean_VStatistics_getAverage int_ops
     (foldl clean_VStatistics_addSample clean_VStatistics_init [4, 8]) = Inr 6"
    by (simp add: clean_VStatistics_getAverage_def clean_VStatistics_addSample_def
        clean_VStatistics_init_def int_ops_def)
  from g C4_clean_file_keeps_the_defects [of "\<lparr>m_value = [7, 9], m_width = 64\<rparr>" int_ops "[4, 8]" 0 7 3]
    C4_clean_file_keeps_the_defects [of "\<lparr>m_value = [7, 9], m_width = 64\<rparr>" int_ops "[4, 8]" 0 2 3]
  show ?thesis by simp
qed

subsection \<open>The ring buffer\<close>

text \<open>Conversions between \<open>int\<close> and \<open>size_t\<close> of values that both can hold.\<close>

lemma ucast_size_t_of_int:
  "(ucast (word_of_int k :: size_t) :: cint) = word_of_int k"
proof -
  have "(ucast (word_of_int k :: size_t) :: cint) = word_of_int (uint (word_of_int k :: size_t))"
    by (rule ucast_eq)
  also have "\<dots> = word_of_int k"
    unfolding word_of_int_eq_iff uint_word_of_int_eq take_bit_take_bit by simp
  finally show ?thesis .
qed

lemma sint_cint_of_int:
  "- 2147483648 \<le> k \<Longrightarrow> k < 2147483648 \<Longrightarrow> sint (word_of_int k :: cint) = k"
  unfolding sint_sbintrunc' by (simp add: signed_take_bit_int_eq_self)

lemma scast_cint_of_int:
  "- 2147483648 \<le> k \<Longrightarrow> k < 2147483648 \<Longrightarrow> (scast (word_of_int k :: cint) :: size_t) = word_of_int k"
  unfolding scast_eq by (simp only: sint_cint_of_int)

lemma uint_size_t_of_int:
  "0 \<le> k \<Longrightarrow> k < 18446744073709551616 \<Longrightarrow> uint (word_of_int k :: size_t) = k"
  unfolding uint_word_of_int_eq by (simp add: take_bit_int_eq_self)


text \<open>With a capacity of at most \<open>2 ^ 30\<close>, a write index below the capacity and an
  offset from \<open>- capacity\<close> up to, but not including, \<open>capacity\<close>, the subscript that
  \<open>read\<close> computes is in the buffer: the sum of index and offset fits an \<open>int\<close>, and
  one adjustment by the capacity brings it into range.\<close>

lemma read_idx_small_capacity:
  fixes s :: "'d SignalBuffer" and off :: cint
  assumes wi: "m_writeIndex s < m_capacity s"
    and cap: "uint (m_capacity s) \<le> 1073741824"
    and lo: "- uint (m_capacity s) \<le> sint off"
    and hi: "sint off < uint (m_capacity s)"
  shows "\<exists>k. SignalBuffer_read_idx s off = word_of_int k \<and> 0 \<le> k \<and> k < uint (m_capacity s)"
proof -
  define A where "A = uint (m_writeIndex s)"
  define C where "C = uint (m_capacity s)"
  define t where "t = A + sint off"
  have A: "0 \<le> A" "A < C"
    using wi unfolding A_def C_def word_less_def by simp_all
  have C: "C \<le> 1073741824" using cap by (simp add: C_def)
  have t: "- C \<le> t" "t < 2 * C - 1"
    using A lo hi by (simp_all add: t_def C_def)
  have capC: "m_capacity s = word_of_int C"
    unfolding C_def by simp
  have idx0: "ucast (m_writeIndex s) + off = (word_of_int t :: cint)"
  proof -
    have "(word_of_int t :: cint) = word_of_int A + word_of_int (sint off)"
      unfolding t_def by (simp only: wi_hom_add)
    also have "(word_of_int A :: cint) = ucast (m_writeIndex s)"
      unfolding A_def by (simp only: ucast_eq)
    also have "(word_of_int (sint off) :: cint) = off"
      by simp
    finally show ?thesis by simp
  qed
  have st: "sint (word_of_int t :: cint) = t"
    using t C by (intro sint_cint_of_int) simp_all
  have sc: "(scast (word_of_int t :: cint) :: size_t) = word_of_int t"
    using t C by (intro scast_cint_of_int) simp_all
  have scap: "sint (ucast (m_capacity s) :: cint) = C"
    unfolding capC ucast_size_t_of_int using C A by (intro sint_cint_of_int) simp_all
  have i1: "ucast ((scast (word_of_int t :: cint) :: size_t) + m_capacity s) = (word_of_int (t + C) :: cint)"
    by (simp only: sc capC wi_hom_add ucast_size_t_of_int)
  have i2: "ucast ((scast (word_of_int t :: cint) :: size_t) - m_capacity s) = (word_of_int (t - C) :: cint)"
    by (simp only: sc capC wi_hom_sub ucast_size_t_of_int)
  have unf: "SignalBuffer_read_idx s off =
      (let idx = (word_of_int t :: cint);
           idx = (if sint idx < 0 then ucast ((scast idx :: size_t) + m_capacity s) else idx);
           idx = (if C \<le> sint idx then ucast ((scast idx :: size_t) - m_capacity s) else idx)
       in idx)"
    unfolding SignalBuffer_read_idx_def idx0 scap ..
  show ?thesis
  proof (cases "t < 0")
    case True
    have s1: "sint (word_of_int (t + C) :: cint) = t + C"
      using True t C by (intro sint_cint_of_int) simp_all
    from True have "SignalBuffer_read_idx s off = word_of_int (t + C)"
      unfolding unf Let_def st i1 by (simp add: s1 del: of_int_add of_int_diff)
    moreover have "0 \<le> t + C" "t + C < C" using True t by simp_all
    ultimately show ?thesis unfolding C_def by blast
  next
    case False
    show ?thesis
    proof (cases "C \<le> t")
      case True
      with False have "SignalBuffer_read_idx s off = word_of_int (t - C)"
        unfolding unf Let_def st i2 by (simp add: st i2 del: of_int_add of_int_diff)
      moreover have "0 \<le> t - C" "t - C < C" using True t by simp_all
      ultimately show ?thesis unfolding C_def by blast
    next
      case nt: False
      with False have "SignalBuffer_read_idx s off = word_of_int t"
        unfolding unf Let_def st by (simp add: st del: of_int_add of_int_diff)
      moreover have "0 \<le> t" "t < C" using nt False by simp_all
      ultimately show ?thesis unfolding C_def by blast
    qed
  qed
qed


text \<open>The constructor establishes the invariant for a positive capacity, and \<open>write\<close>
  succeeds under it and keeps it.\<close>

lemma SignalBuffer_init_inv:
  "0 < c \<Longrightarrow> SignalBuffer_inv (SignalBuffer_init ops c)"
  by (simp add: SignalBuffer_inv_def SignalBuffer_init_def)

lemma SignalBuffer_write_keeps_inv:
  assumes "SignalBuffer_inv s"
  shows "\<exists>s'. SignalBuffer_write s v = Inr s' \<and> SignalBuffer_inv s' \<and>
              m_capacity s' = m_capacity s"
proof -
  from assms have lt: "m_writeIndex s < m_capacity s"
    and len: "length (m_buffer s) = unat (m_capacity s)"
    by (simp_all add: SignalBuffer_inv_def)
  from lt have inb: "unat (m_writeIndex s) < length (m_buffer s)"
    by (simp add: len word_less_nat_alt)
  from lt have le: "m_writeIndex s + 1 \<le> m_capacity s"
    by (rule inc_le)
  from lt have pos: "0 < m_capacity s"
    by (simp add: word_less_nat_alt)
  show ?thesis
  proof (cases "m_capacity s \<le> m_writeIndex s + 1")
    case True
    with inb len pos show ?thesis
      by (simp add: SignalBuffer_write_def SignalBuffer_inv_def Let_def)
  next
    case False
    with le have "m_writeIndex s + 1 < m_capacity s" by simp
    with False inb len show ?thesis
      by (simp add: SignalBuffer_write_def SignalBuffer_inv_def Let_def)
  qed
qed

text \<open>Under the invariant and with a capacity of at most \<open>2 ^ 30\<close>, \<open>read\<close> returns an
  element of the buffer for every offset in that range.\<close>

lemma SignalBuffer_read_in_bounds:
  fixes s :: "'d SignalBuffer" and off :: cint
  assumes inv: "SignalBuffer_inv s"
    and cap: "uint (m_capacity s) \<le> 1073741824"
    and lo: "- uint (m_capacity s) \<le> sint off"
    and hi: "sint off < uint (m_capacity s)"
  shows "\<exists>k < length (m_buffer s). SignalBuffer_read s off = Inr (m_buffer s ! k)"
proof -
  from inv have wi: "m_writeIndex s < m_capacity s"
    and len: "length (m_buffer s) = unat (m_capacity s)"
    by (simp_all add: SignalBuffer_inv_def)
  from read_idx_small_capacity [OF wi cap lo hi]
  obtain k where idx: "SignalBuffer_read_idx s off = word_of_int k"
    and k: "0 \<le> k" "k < uint (m_capacity s)"
    by blast
  from k cap have sc: "(scast (word_of_int k :: cint) :: size_t) = word_of_int k"
    by (intro scast_cint_of_int) simp_all
  from k cap have "uint (word_of_int k :: size_t) = k"
    by (intro uint_size_t_of_int) simp_all
  then have u: "unat (word_of_int k :: size_t) = nat k"
    by (simp only: unat_eq_nat_uint)
  from k have "nat k < unat (m_capacity s)"
    by (simp add: unat_eq_nat_uint nat_less_iff del: nat_uint_eq)
  then show ?thesis
    unfolding SignalBuffer_read_def idx sc vec_at_def u len by auto
qed

text \<open>
  Claim C8. For every \<open>SignalBuffer\<close> constructed with a capacity \<open>c > 0\<close>, the
  invariant \<open>0 <= m_writeIndex < c\<close> holds initially and is kept by every \<open>write\<close>;
  under it \<open>read(offset)\<close> is said to compute a subscript in the buffer for every
  offset with \<open>-c <= offset < c\<close>. The capacity is a \<open>size_t\<close> and \<open>read\<close> computes
  in \<open>int\<close>. A buffer constructed with the capacity \<open>2 ^ 31\<close> satisfies the invariant,
  and the offset 0 is in range; there \<open>static_cast<int>(m_capacity)\<close> is \<open>INT_MIN\<close>,
  so \<open>idx >= static_cast<int>(m_capacity)\<close> holds at \<open>idx = 0\<close>, \<open>idx -= m_capacity\<close>
  makes \<open>idx\<close> \<open>INT_MIN\<close>, and \<open>m_buffer[idx]\<close> is the subscript \<open>2 ^ 64 - 2 ^ 31\<close>,
  outside the buffer.
\<close>

theorem C8_read_out_of_bounds_at_capacity_2_31:
  "SignalBuffer_inv (SignalBuffer_init int_ops 2147483648) \<and>
   - uint (m_capacity (SignalBuffer_init int_ops 2147483648)) \<le> sint (0 :: cint) \<and>
   sint (0 :: cint) < uint (m_capacity (SignalBuffer_init int_ops 2147483648)) \<and>
   SignalBuffer_read_idx (SignalBuffer_init int_ops 2147483648) 0 = - 2147483648 \<and>
   SignalBuffer_read (SignalBuffer_init int_ops 2147483648) 0 =
     Inl (OutOfBounds ''m_buffer'' 18446744071562067968)"
proof -
  have i: "SignalBuffer_read_idx (SignalBuffer_init int_ops 2147483648) 0 = - 2147483648"
    by (simp add: SignalBuffer_read_idx_def SignalBuffer_init_def Let_def)
  show ?thesis
    by (simp add: i SignalBuffer_read_def vec_at_def SignalBuffer_inv_def)
      (simp add: SignalBuffer_init_def)
qed

subsection \<open>Calculators built by addDelay\<close>

text \<open>The states for which \<open>getCriticalPathDelay\<close> ends in the read of
  \<open>path[path.size()]\<close> include every calculator built by \<open>addDelay\<close> from the
  constructed one, as long as it holds fewer than \<open>2 ^ 31\<close> delays: the subscript
  that \<open>addDelay\<close> stores is that of the delay it has appended.\<close>

lemma delays_in_range_init: "delays_in_range (DelayCalculator_init ops)"
  by (simp add: delays_in_range_def DelayCalculator_init_def)

lemma new_subscript:
  assumes "n < 2147483648"
  shows "unat (scast (ucast (word_of_nat (Suc n) - 1 :: size_t) :: cint) :: size_t) = n"
proof -
  have a: "(word_of_nat (Suc n) - 1 :: size_t) = word_of_int (int n)"
    by simp
  have b: "(ucast (word_of_int (int n) :: size_t) :: cint) = word_of_int (int n)"
    by (rule ucast_size_t_of_int)
  have c: "(scast (word_of_int (int n) :: cint) :: size_t) = word_of_int (int n)"
    using assms by (intro scast_cint_of_int) simp_all
  have "uint (word_of_int (int n) :: size_t) = int n"
    using assms by (intro uint_size_t_of_int) simp_all
  then have d: "unat (word_of_int (int n) :: size_t) = n"
    by (simp only: unat_eq_nat_uint nat_int)
  show ?thesis
    by (simp only: a b c d)
qed

lemma delays_in_range_addDelay:
  assumes "delays_in_range s" and "length (m_delays s) < 2147483648"
  shows "delays_in_range (DelayCalculator_addDelay ops s sig d)"
  using assms new_subscript [of "length (m_delays s)"]
  by (auto simp: delays_in_range_def DelayCalculator_addDelay_def Let_def less_Suc_eq)

lemma delays_in_range_path:
  "delays_in_range s \<Longrightarrow> path_delays_in_range s path"
  by (auto simp: delays_in_range_def path_delays_in_range_def list_all_iff split: option.splits)

end
